theory Spec2Isabelle
  imports Main
begin

section \<open>JavaScript values, errors and promises\<close>

text \<open>
  The perma-cache client (\<^verbatim>\<open>PermaCache\<close>) handles decoded JSON bodies, thrown errors
  and promises. A decoded body is a \<open>jsval\<close>; \<open>JUndefined\<close> is what reading an absent
  property gives. An object is the list of its own properties. Numbers are only ever
  tested for truthiness by this program and are carried as integers.
\<close>

datatype jsval =
    JUndefined
  | JNull
  | JBool bool
  | JNum int
  | JStr string
  | JArr "jsval list"
  | JObj "(string \<times> jsval) list"

text \<open>
  \<open>Error v\<close> is \<^verbatim>\<open>new Error(v)\<close>: the constructor's argument is kept as it was passed
  (its \<^verbatim>\<open>message\<close> is that argument converted to a string). The other constructors are
  the built-in error classes raised by the language and the platform.
\<close>

datatype js_error =
    Error jsval
  | TypeError string
  | SyntaxError string
  | URIError string

datatype 'a promise = Pending | Resolves 'a | Rejects js_error

text \<open>
  \<^verbatim>\<open>v.k\<close> for the property names this program reads (\<^verbatim>\<open>message\<close>, \<^verbatim>\<open>ok\<close>,
  \<^verbatim>\<open>error\<close>): reading from \<^verbatim>\<open>null\<close> or \<^verbatim>\<open>undefined\<close> throws a TypeError, an object
  gives its own property or \<^verbatim>\<open>undefined\<close>, and every other value gives
  \<^verbatim>\<open>undefined\<close>, no prototype defining these names.
\<close>

fun get_prop :: "jsval \<Rightarrow> string \<Rightarrow> js_error + jsval" where
  "get_prop JUndefined k = Inl (TypeError ''Cannot read properties of undefined'')"
| "get_prop JNull k = Inl (TypeError ''Cannot read properties of null'')"
| "get_prop (JObj kvs) k = Inr (case map_of kvs k of None \<Rightarrow> JUndefined | Some v \<Rightarrow> v)"
| "get_prop v k = Inr JUndefined"

text \<open>Truthiness, as tested by \<^verbatim>\<open>!x\<close> and \<^verbatim>\<open>x || y\<close>.\<close>

fun truthy :: "jsval \<Rightarrow> bool" where
  "truthy JUndefined = False"
| "truthy JNull = False"
| "truthy (JBool b) = b"
| "truthy (JNum n) = (n \<noteq> 0)"
| "truthy (JStr s) = (s \<noteq> [])"
| "truthy (JArr vs) = True"
| "truthy (JObj kvs) = True"

section \<open>Rate limiters and the service binding\<close>

text \<open>
  A rate limiter is a function object; what matters to the client is which object it is.
  \<open>Throttled a\<close> is the limiter made by \<^verbatim>\<open>createRateLimiter\<close> around the throttled queue
  at address \<open>a\<close> of the heap of throttled queues, each queue being the pair of arguments
  \<^verbatim>\<open>throttledQueue\<close> was called with (requests per period, period in milliseconds).
  \<open>Custom n\<close> is a limiter written by the caller.
\<close>

datatype rate_limiter = Throttled nat | Custom nat

type_synonym throttle_heap = "(nat \<times> nat) list"

definition MAX_PUT_RETRIES :: nat where
  "MAX_PUT_RETRIES = 5"

definition RATE_LIMIT_REQUESTS :: nat where
  "RATE_LIMIT_REQUESTS = 100"

definition RATE_LIMIT_PERIOD :: nat where
  "RATE_LIMIT_PERIOD = 60 * 1000"

definition createRateLimiter :: "throttle_heap \<Rightarrow> rate_limiter \<times> throttle_heap" where
  "createRateLimiter h =
     (Throttled (length h), h @ [(RATE_LIMIT_REQUESTS, RATE_LIMIT_PERIOD)])"

text \<open>
  Loading the module runs \<^verbatim>\<open>const globalRateLimiter = createRateLimiter()\<close> once, on the
  empty heap; \<open>module_heap\<close> is the heap this leaves.
\<close>

definition globalRateLimiter :: rate_limiter where
  "globalRateLimiter = fst (createRateLimiter [])"

definition module_heap :: throttle_heap where
  "module_heap = snd (createRateLimiter [])"

text \<open>
  A \<^verbatim>\<open>URL\<close> object, identified by the string it serialises to (\<^verbatim>\<open>toString()\<close>,
  \<^verbatim>\<open>href\<close>).
\<close>

datatype url = URL (href: string)

text \<open>
  The \<^verbatim>\<open>Service\<close> interface; an instance of \<^verbatim>\<open>PermaCache\<close> has the same three fields.
  An omitted (\<^verbatim>\<open>undefined\<close>) token or rate limiter is \<open>None\<close>.
\<close>

record service =
  endpoint :: url
  token :: "string option"
  rateLimiter :: "rate_limiter option"

record constructor_options =
  opt_token :: "string option"
  opt_endpoint :: "url option"
  opt_rateLimiter :: "rate_limiter option"

text \<open>
  \<^verbatim>\<open>new PermaCache({token, endpoint = new URL('https://api.nftstorage.link'), rateLimiter})\<close>:
  the three fields are stored; \<^verbatim>\<open>rateLimiter || createRateLimiter()\<close> allocates a new
  limiter when none is given (a function is always truthy). The default endpoint
  serialises with its root path, \<^verbatim>\<open>https://api.nftstorage.link/\<close>.
\<close>

definition PermaCache_constructor ::
  "constructor_options \<Rightarrow> throttle_heap \<Rightarrow> service \<times> throttle_heap" where
  "PermaCache_constructor opts h =
     (let endpoint' = (case opt_endpoint opts of
                         None \<Rightarrow> URL ''https://api.nftstorage.link/''
                       | Some e \<Rightarrow> e);
          (rl, h') = (case opt_rateLimiter opts of
                        Some r \<Rightarrow> (r, h)
                      | None \<Rightarrow> createRateLimiter h)
      in (\<lparr>endpoint = endpoint', token = opt_token opts, rateLimiter = Some rl\<rparr>, h'))"

section \<open>Requests, responses and the platform\<close>

record request =
  req_url :: string
  req_method :: string
  req_headers :: "(string \<times> string) list"

text \<open>
  A response as far as the client reads it: its status, and what \<^verbatim>\<open>response.json()\<close>
  settles with (a SyntaxError for a body that is not JSON). \<^verbatim>\<open>response.ok\<close> is true for
  the statuses 200 to 299.
\<close>

record response =
  status :: nat
  body :: "js_error + jsval"

definition response_ok :: "response \<Rightarrow> bool" where
  "response_ok r = (200 \<le> status r \<and> status r \<le> 299)"

text \<open>
  The functions of the platform the client calls, taken as parameters:
  \<^verbatim>\<open>encodeURIComponent\<close> (which throws a URIError on a lone surrogate),
  \<^verbatim>\<open>new URL(relative, base)\<close> (which throws a TypeError when the reference cannot be
  resolved), and \<^verbatim>\<open>fetch\<close>: the remote service, in state \<open>'w\<close>, answers a request with a
  response or fails with a network error, and moves to a new state.
\<close>

record 'w platform =
  encodeURIComponent :: "string \<Rightarrow> js_error + string"
  new_URL :: "string \<Rightarrow> url \<Rightarrow> js_error + url"
  fetch :: "request \<Rightarrow> 'w \<Rightarrow> (js_error + response) \<times> 'w"

section \<open>Headers\<close>

text \<open>
  \<^verbatim>\<open>static headers(token)\<close>: \<^verbatim>\<open>!token\<close> holds for an omitted token and for the empty
  string.
\<close>

definition PermaCache_headers :: "string option \<Rightarrow> js_error + (string \<times> string) list" where
  "PermaCache_headers tok =
     (case tok of
        None \<Rightarrow> Inl (Error (JStr ''missing token''))
      | Some t \<Rightarrow>
          if t = [] then Inl (Error (JStr ''missing token''))
          else Inr [(''Authorization'', ''Bearer '' @ t),
                    (''X-Client'', ''nftstorage.link/js'')])"

section \<open>Effects of a call\<close>

text \<open>
  \<^verbatim>\<open>pSettle\<close> gives one entry per promise: the value it fulfilled with or the reason
  it rejected with.
\<close>

datatype settled = Fulfilled jsval | Rejected js_error

fun isRejected :: "settled \<Rightarrow> bool" where
  "isRejected (Rejected e) = True"
| "isRejected (Fulfilled v) = False"

text \<open>
  Where the asynchronous function that \<^verbatim>\<open>put\<close> maps over the URLs stands for one URL:
  suspended at \<^verbatim>\<open>await rateLimiter()\<close> (holding \<^verbatim>\<open>apiUrl\<close>), at \<^verbatim>\<open>await fetch(...)\<close>
  (the request is out; the answer it will receive is held), at
  \<^verbatim>\<open>await request.json()\<close>, or settled.
\<close>

datatype stage =
    AwaitLimiter url
  | AwaitFetch "js_error + response"
  | AwaitJson response
  | Settled settled

text \<open>
  One item of the batch. \<open>fetched\<close> records the request the item sent and the answer to
  it, once it has sent one; the program does not read it.
\<close>

record task =
  item_url :: string
  stage :: stage
  fetched :: "(request \<times> (js_error + response)) option"

text \<open>
  What a call has done so far: the items of the batch, the requests handed to
  \<^verbatim>\<open>fetch\<close> in order, the limiter behind each grant that let a request through, the
  arguments \<^verbatim>\<open>onCachedUrl\<close> was called with in order, and the state of the remote
  service.
\<close>

record 'w run_state =
  tasks :: "task list"
  requests :: "request list"
  grants :: "rate_limiter list"
  callbacks :: "string list"
  world :: 'w

definition idle :: "'w \<Rightarrow> 'w run_state" where
  "idle w = \<lparr>tasks = [], requests = [], grants = [], callbacks = [], world = w\<rparr>"

section \<open>list\<close>

record list_options =
  lo_size :: "nat option"
  lo_page :: "nat option"

text \<open>
  \<^verbatim>\<open>static async list({endpoint, token, rateLimiter = globalRateLimiter}, {size, page = 0} = {})\<close>.
  The function is sequential: the URL is built, then the headers, then the limiter is
  awaited and one GET is sent. The limiter resolves (it never rejects) and \<^verbatim>\<open>fetch\<close>
  settles. The options are not read.
\<close>

definition PermaCache_list ::
  "'w platform \<Rightarrow> service \<Rightarrow> list_options option \<Rightarrow> 'w \<Rightarrow> jsval promise \<times> 'w run_state" where
  "PermaCache_list P svc opts w =
     (let rl = (case rateLimiter svc of None \<Rightarrow> globalRateLimiter | Some r \<Rightarrow> r)
      in case new_URL P ''perma-cache/'' (endpoint svc) of
           Inl e \<Rightarrow> (Rejects e, idle w)
         | Inr u \<Rightarrow>
            (case PermaCache_headers (token svc) of
               Inl e \<Rightarrow> (Rejects e, idle w)
             | Inr hdrs \<Rightarrow>
                (let req = \<lparr>req_url = href u, req_method = ''GET'', req_headers = hdrs\<rparr>;
                     (out, w') = fetch P req w;
                     st = (idle w')\<lparr>requests := [req], grants := [rl]\<rparr>
                 in case out of
                      Inl e \<Rightarrow> (Rejects e, st)
                    | Inr resp \<Rightarrow>
                       (case body resp of
                          Inl e \<Rightarrow> (Rejects e, st)
                        | Inr result \<Rightarrow>
                           (case get_prop result ''ok'' of
                              Inl e \<Rightarrow> (Rejects e, st)
                            | Inr ok \<Rightarrow>
                               if \<not> truthy ok then
                                 (case get_prop result ''error'' of
                                    Inl e \<Rightarrow> (Rejects e, st)
                                  | Inr err \<Rightarrow>
                                     (case get_prop err ''message'' of
                                        Inl e \<Rightarrow> (Rejects e, st)
                                      | Inr m \<Rightarrow> (Rejects (Error m), st)))
                               else (Resolves result, st))))))"

section \<open>put\<close>

text \<open>
  \<^verbatim>\<open>onCachedUrl\<close> is a function of the caller: called with a URL it returns (\<open>None\<close>)
  or throws (\<open>Some e\<close>).
\<close>

type_synonym callback = "string \<Rightarrow> js_error option"

record put_options =
  po_onCachedUrl :: "callback option"
  po_maxRetries :: "nat option"

text \<open>
  The part of the mapped function that runs before its first \<^verbatim>\<open>await\<close>:
  \<^verbatim>\<open>new URL(`perma-cache/${encodeURIComponent(url)}`, endpoint)\<close>. A throw here rejects
  the item's promise.
\<close>

definition api_url :: "'w platform \<Rightarrow> url \<Rightarrow> string \<Rightarrow> js_error + url" where
  "api_url P ep u =
     (case encodeURIComponent P u of
        Inl e \<Rightarrow> Inl e
      | Inr enc \<Rightarrow> new_URL P (''perma-cache/'' @ enc) ep)"

definition put_item_start :: "'w platform \<Rightarrow> url \<Rightarrow> string \<Rightarrow> task" where
  "put_item_start P ep u =
     (case api_url P ep u of
        Inl e \<Rightarrow> \<lparr>item_url = u, stage = Settled (Rejected e), fetched = None\<rparr>
      | Inr apiUrl \<Rightarrow> \<lparr>item_url = u, stage = AwaitLimiter apiUrl, fetched = None\<rparr>)"

definition post_request :: "(string \<times> string) list \<Rightarrow> url \<Rightarrow> request" where
  "post_request hdrs apiUrl =
     \<lparr>req_url = href apiUrl, req_method = ''POST'', req_headers = hdrs\<rparr>"

text \<open>
  The part after \<^verbatim>\<open>await request.json()\<close>: the settlement of the item, and the
  arguments \<^verbatim>\<open>onCachedUrl\<close> was called with on the way. \<^verbatim>\<open>onCachedUrl(url)\<close> is not
  guarded: calling \<^verbatim>\<open>undefined\<close> throws a TypeError.
\<close>

definition after_json :: "callback option \<Rightarrow> string \<Rightarrow> response \<Rightarrow> settled \<times> string list" where
  "after_json onCachedUrl u resp =
     (case body resp of
        Inl e \<Rightarrow> (Rejected e, [])
      | Inr res \<Rightarrow>
          if \<not> response_ok resp then
            (case get_prop res ''message'' of
               Inl e \<Rightarrow> (Rejected e, [])
             | Inr m \<Rightarrow> (Rejected (Error m), []))
          else
            (case onCachedUrl of
               None \<Rightarrow> (Rejected (TypeError ''onCachedUrl is not a function''), [])
             | Some cb \<Rightarrow>
                (case cb u of
                   Some e \<Rightarrow> (Rejected e, [u])
                 | None \<Rightarrow> (Fulfilled res, [u]))))"

text \<open>The settlement of an item from the answer to its request.\<close>

definition put_item_finish ::
  "callback option \<Rightarrow> string \<Rightarrow> js_error + response \<Rightarrow> settled \<times> string list" where
  "put_item_finish onCachedUrl u out =
     (case out of
        Inl e \<Rightarrow> (Rejected e, [])
      | Inr resp \<Rightarrow> after_json onCachedUrl u resp)"

text \<open>
  The event loop resumes one suspended item at a time. \<open>step \<dots> i\<close> resumes item \<open>i\<close>
  and runs it to its next \<^verbatim>\<open>await\<close> or to its end: the limiter \<open>rl\<close> grants and the
  request is sent (the remote service answers it in its current state), the answer
  arrives, or the body has been read. Resuming a settled item, or one that does not
  exist, does nothing.
\<close>

definition step ::
  "'w platform \<Rightarrow> rate_limiter \<Rightarrow> (string \<times> string) list \<Rightarrow> callback option \<Rightarrow>
   nat \<Rightarrow> 'w run_state \<Rightarrow> 'w run_state" where
  "step P rl hdrs onCachedUrl i st =
     (if i < length (tasks st) then
        (let t = tasks st ! i
         in case stage t of
              AwaitLimiter apiUrl \<Rightarrow>
                (let req = post_request hdrs apiUrl;
                     (out, w') = fetch P req (world st)
                 in st\<lparr>tasks := (tasks st)[i := t\<lparr>stage := AwaitFetch out,
                                                  fetched := Some (req, out)\<rparr>],
                       requests := requests st @ [req],
                       grants := grants st @ [rl],
                       world := w'\<rparr>)
            | AwaitFetch out \<Rightarrow>
                (case out of
                   Inl e \<Rightarrow> st\<lparr>tasks := (tasks st)[i := t\<lparr>stage := Settled (Rejected e)\<rparr>]\<rparr>
                 | Inr resp \<Rightarrow> st\<lparr>tasks := (tasks st)[i := t\<lparr>stage := AwaitJson resp\<rparr>]\<rparr>)
            | AwaitJson resp \<Rightarrow>
                (let (s, called) = after_json onCachedUrl (item_url t) resp
                 in st\<lparr>tasks := (tasks st)[i := t\<lparr>stage := Settled s\<rparr>],
                       callbacks := callbacks st @ called\<rparr>)
            | Settled s \<Rightarrow> st)
      else st)"

text \<open>A schedule is the order in which the event loop resumes the items.\<close>

fun run ::
  "'w platform \<Rightarrow> rate_limiter \<Rightarrow> (string \<times> string) list \<Rightarrow> callback option \<Rightarrow>
   nat list \<Rightarrow> 'w run_state \<Rightarrow> 'w run_state" where
  "run P rl hdrs onCachedUrl [] st = st"
| "run P rl hdrs onCachedUrl (i # sched) st =
     run P rl hdrs onCachedUrl sched (step P rl hdrs onCachedUrl i st)"

text \<open>
  \<^verbatim>\<open>pSettle\<close> (the \<^verbatim>\<open>p-settle\<close> package) resolves once every promise has settled, with
  their settlements in the order of the promises; it never rejects.
\<close>

fun settlements :: "task list \<Rightarrow> settled list option" where
  "settlements [] = Some []"
| "settlements (t # ts) =
     (case stage t of
        Settled s \<Rightarrow> (case settlements ts of None \<Rightarrow> None | Some ss \<Rightarrow> Some (s # ss))
      | _ \<Rightarrow> None)"

definition pSettle :: "task list \<Rightarrow> settled list promise" where
  "pSettle ts = (case settlements ts of None \<Rightarrow> Pending | Some ss \<Rightarrow> Resolves ss)"

text \<open>
  \<^verbatim>\<open>static async put({endpoint, token, rateLimiter = globalRateLimiter}, urls,
  {onCachedUrl, maxRetries = MAX_PUT_RETRIES} = {})\<close>, observed after the event loop
  has resumed the items in the order \<open>sched\<close>. \<^verbatim>\<open>maxRetries\<close> is bound and never read.
\<close>

definition PermaCache_put ::
  "'w platform \<Rightarrow> service \<Rightarrow> string list \<Rightarrow> put_options option \<Rightarrow> nat list \<Rightarrow> 'w \<Rightarrow>
   settled list promise \<times> 'w run_state" where
  "PermaCache_put P svc urls options sched w =
     (let rl = (case rateLimiter svc of None \<Rightarrow> globalRateLimiter | Some r \<Rightarrow> r);
          onCachedUrl = (case options of None \<Rightarrow> None | Some opts \<Rightarrow> po_onCachedUrl opts);
          maxRetries = (case options of
                          None \<Rightarrow> MAX_PUT_RETRIES
                        | Some opts \<Rightarrow>
                            (case po_maxRetries opts of
                               None \<Rightarrow> MAX_PUT_RETRIES
                             | Some n \<Rightarrow> n))
      in case PermaCache_headers (token svc) of
           Inl e \<Rightarrow> (Rejects e, idle w)
         | Inr hdrs \<Rightarrow>
            (let st = run P rl hdrs onCachedUrl sched
                        ((idle w)\<lparr>tasks := map (put_item_start P (endpoint svc)) urls\<rparr>)
             in (pSettle (tasks st), st)))"

text \<open>The instance methods pass the instance as the service.\<close>

definition put ::
  "'w platform \<Rightarrow> service \<Rightarrow> string list \<Rightarrow> put_options option \<Rightarrow> nat list \<Rightarrow> 'w \<Rightarrow>
   settled list promise \<times> 'w run_state" where
  "put P this urls options sched w = PermaCache_put P this urls options sched w"

definition list_entries ::
  "'w platform \<Rightarrow> service \<Rightarrow> list_options option \<Rightarrow> 'w \<Rightarrow> jsval promise \<times> 'w run_state" where
  "list_entries P this opts w = PermaCache_list P this opts w"

text \<open>
  A schedule is complete for \<open>n\<close> items when it resumes each of them three times: an
  item has three \<^verbatim>\<open>await\<close>s.
\<close>

definition complete :: "nat \<Rightarrow> nat list \<Rightarrow> bool" where
  "complete n sched = list_all (\<lambda>i. 3 \<le> count_list sched i) [0..<n]"

section \<open>A sample platform and service\<close>

text \<open>
  Concrete inputs to run the client on. \<open>percent_encode\<close> is \<^verbatim>\<open>encodeURIComponent\<close> on
  a string given as its UTF-8 bytes: letters, digits and \<^verbatim>\<open>- _ . ! ~ * ' ( )\<close> are
  kept, every other byte becomes \<^verbatim>\<open>%XX\<close>. \<open>append_to_base\<close> resolves a reference
  against a base that ends in a slash. \<open>flaky_service\<close> counts the requests it has
  received for one URL and answers the first two of them with status 500.
\<close>

definition unreserved :: "char \<Rightarrow> bool" where
  "unreserved c =
     (c \<in> set (''ABCDEFGHIJKLMNOPQRSTUVWXYZabcdefghijklmnopqrstuvwxyz0123456789-_.!~*()''
               @ [CHR 0x27]))"

definition hex_digit :: "nat \<Rightarrow> char" where
  "hex_digit n = ''0123456789ABCDEF'' ! (n mod 16)"

definition percent_encode :: "string \<Rightarrow> js_error + string" where
  "percent_encode s =
     Inr (concat (map (\<lambda>c. if unreserved c then [c]
                            else [CHR ''%'', hex_digit (of_char c div 16),
                                  hex_digit (of_char c mod 16)]) s))"

definition append_to_base :: "string \<Rightarrow> url \<Rightarrow> js_error + url" where
  "append_to_base rel base = Inr (URL (href base @ rel))"

definition entry_for :: "string \<Rightarrow> jsval" where
  "entry_for u = JObj [(''url'', JStr u)]"

definition flaky_service :: "string \<Rightarrow> request \<Rightarrow> nat \<Rightarrow> (js_error + response) \<times> nat" where
  "flaky_service flaky req n =
     (if req_url req = flaky then
        (if n < 2
         then (Inr \<lparr>status = 500, body = Inr (JObj [(''message'', JStr ''Internal Server Error'')])\<rparr>,
               Suc n)
         else (Inr \<lparr>status = 200, body = Inr (entry_for (req_url req))\<rparr>, Suc n))
      else (Inr \<lparr>status = 200, body = Inr (entry_for (req_url req))\<rparr>, n))"

definition sample_platform :: "nat platform" where
  "sample_platform =
     \<lparr>encodeURIComponent = percent_encode,
      new_URL = append_to_base,
      fetch = flaky_service ''https://api.nftstorage.link/perma-cache/https%3A%2F%2Fa%2F2''\<rparr>"

definition sample_service :: service where
  "sample_service =
     \<lparr>endpoint = URL ''https://api.nftstorage.link/'', token = Some ''secret'',
      rateLimiter = None\<rparr>"

text \<open>A service that answers every request with one fixed answer, and two answers.\<close>

definition constant_platform :: "js_error + response \<Rightarrow> unit platform" where
  "constant_platform out =
     \<lparr>encodeURIComponent = percent_encode,
      new_URL = append_to_base,
      fetch = (\<lambda>req w. (out, w))\<rparr>"

definition ok_response :: "js_error + response" where
  "ok_response = Inr \<lparr>status = 200, body = Inr (JObj [(''ok'', JBool True)])\<rparr>"

definition bad_token_response :: "js_error + response" where
  "bad_token_response =
     Inr \<lparr>status = 401,
          body = Inr (JObj [(''ok'', JBool False),
                            (''error'', JObj [(''message'', JStr ''bad token'')])])\<rparr>"

section \<open>Invariants of a run\<close>

text \<open>
  The stages of an item, counted; what holds of an item at each stage (the URL it was
  started with, the request it sent and the answer it got, and how it settled); and what
  holds of a run as a whole (every logged request was sent by an item, every grant came
  from the one limiter of the call, one grant per request).
\<close>

fun rank :: "stage \<Rightarrow> nat" where
  "rank (AwaitLimiter a) = 0"
| "rank (AwaitFetch out) = 1"
| "rank (AwaitJson resp) = 2"
| "rank (Settled s) = 3"

definition task_inv ::
  "'w platform \<Rightarrow> url \<Rightarrow> (string \<times> string) list \<Rightarrow> callback option \<Rightarrow> task \<Rightarrow> bool" where
  "task_inv P ep hdrs cb t =
     (case stage t of
        AwaitLimiter a \<Rightarrow> api_url P ep (item_url t) = Inr a \<and> fetched t = None
      | AwaitFetch out \<Rightarrow>
          (\<exists>a. api_url P ep (item_url t) = Inr a \<and> fetched t = Some (post_request hdrs a, out))
      | AwaitJson resp \<Rightarrow>
          (\<exists>a. api_url P ep (item_url t) = Inr a \<and>
               fetched t = Some (post_request hdrs a, Inr resp))
      | Settled s \<Rightarrow>
          (case api_url P ep (item_url t) of
             Inl e \<Rightarrow> s = Rejected e \<and> fetched t = None
           | Inr a \<Rightarrow>
               (\<exists>out. fetched t = Some (post_request hdrs a, out) \<and>
                      s = fst (put_item_finish cb (item_url t) out))))"

definition run_inv ::
  "'w platform \<Rightarrow> url \<Rightarrow> (string \<times> string) list \<Rightarrow> callback option \<Rightarrow> rate_limiter \<Rightarrow>
   'w run_state \<Rightarrow> bool" where
  "run_inv P ep hdrs cb rl st =
     ((\<forall>i<length (tasks st). task_inv P ep hdrs cb (tasks st ! i)) \<and>
      (\<forall>r\<in>set (requests st). \<exists>i<length (tasks st). \<exists>out. fetched (tasks st ! i) = Some (r, out)) \<and>
      (\<forall>i<length (tasks st). \<forall>r out. fetched (tasks st ! i) = Some (r, out) \<longrightarrow>
          r \<in> set (requests st)) \<and>
      length (grants st) = length (requests st) \<and>
      set (grants st) \<subseteq> {rl})"

definition put_limiter :: "service \<Rightarrow> rate_limiter" where
  "put_limiter svc = (case rateLimiter svc of None \<Rightarrow> globalRateLimiter | Some r \<Rightarrow> r)"

definition put_callback :: "put_options option \<Rightarrow> callback option" where
  "put_callback options = (case options of None \<Rightarrow> None | Some opts \<Rightarrow> po_onCachedUrl opts)"

definition auth_headers :: "string \<Rightarrow> (string \<times> string) list" where
  "auth_headers t = [(''Authorization'', ''Bearer '' @ t), (''X-Client'', ''nftstorage.link/js'')]"

definition has_sent :: "task \<Rightarrow> bool" where
  "has_sent t = (fetched t \<noteq> None)"

section \<open>Properties\<close>

lemma length_tasks_step [simp]:
  "length (tasks (step P rl hdrs cb i st)) = length (tasks st)"
  by (simp add: step_def Let_def split: stage.splits sum.splits prod.splits)

lemma length_tasks_run [simp]:
  "length (tasks (run P rl hdrs cb sched st)) = length (tasks st)"
  by (induction sched arbitrary: st) simp_all

lemma item_url_step [simp]:
  "item_url (tasks (step P rl hdrs cb i st) ! j) = item_url (tasks st ! j)"
  by (cases "j = i")
     (simp_all add: step_def Let_def split: stage.splits sum.splits prod.splits)

lemma item_url_run [simp]:
  "item_url (tasks (run P rl hdrs cb sched st) ! j) = item_url (tasks st ! j)"
  by (induction sched arbitrary: st) simp_all

lemma rank_le_3: "rank s \<le> 3"
  by (cases s) simp_all

lemma step_other:
  "j \<noteq> i \<Longrightarrow> tasks (step P rl hdrs cb i st) ! j = tasks st ! j"
  by (simp add: step_def Let_def split: stage.splits sum.splits prod.splits)

lemma step_progress:
  "i < length (tasks st) \<Longrightarrow>
   min 3 (Suc (rank (stage (tasks st ! i)))) \<le> rank (stage (tasks (step P rl hdrs cb i st) ! i))"
  by (simp add: step_def Let_def split: stage.splits sum.splits prod.splits)

lemma step_mono:
  "rank (stage (tasks st ! j)) \<le> rank (stage (tasks (step P rl hdrs cb i st) ! j))"
proof (cases "j = i \<and> i < length (tasks st)")
  case True
  then show ?thesis using step_progress [of i st P rl hdrs cb] rank_le_3 [of "stage (tasks st ! i)"]
    by simp
next
  case False
  then show ?thesis
    by (auto simp: step_other) (simp add: step_def)
qed

lemma run_progress:
  "j < length (tasks st) \<Longrightarrow>
   min 3 (rank (stage (tasks st ! j)) + count_list sched j)
     \<le> rank (stage (tasks (run P rl hdrs cb sched st) ! j))"
proof (induction sched arbitrary: st)
  case Nil
  then show ?case by simp
next
  case (Cons i sched)
  let ?st = "step P rl hdrs cb i st"
  have len: "j < length (tasks ?st)" using Cons.prems by simp
  have ih: "min 3 (rank (stage (tasks ?st ! j)) + count_list sched j)
              \<le> rank (stage (tasks (run P rl hdrs cb sched ?st) ! j))"
    using Cons.IH [OF len] .
  show ?case
  proof (cases "i = j")
    case True
    have "min 3 (Suc (rank (stage (tasks st ! j)))) \<le> rank (stage (tasks ?st ! j))"
      using step_progress [of j st P rl hdrs cb] Cons.prems True by simp
    then show ?thesis using ih True by simp
  next
    case False
    have "rank (stage (tasks st ! j)) \<le> rank (stage (tasks ?st ! j))"
      by (rule step_mono)
    then show ?thesis using ih False by simp
  qed
qed

lemma settlements_Some_iff:
  "settlements ts = Some ss \<longleftrightarrow>
   length ss = length ts \<and> (\<forall>i<length ts. stage (ts ! i) = Settled (ss ! i))"
proof (induction ts arbitrary: ss)
  case Nil
  then show ?case by auto
next
  case (Cons t ts)
  show ?case
  proof (cases ss)
    case Nil
    then show ?thesis by (auto split: stage.splits option.splits)
  next
    case (Cons s ss')
    then show ?thesis using Cons.IH [of ss']
      by (auto simp: nth_Cons All_less_Suc2 split: stage.splits option.splits nat.splits)
  qed
qed

lemma settlements_all_settled:
  "(\<forall>i<length ts. rank (stage (ts ! i)) = 3) \<Longrightarrow> \<exists>ss. settlements ts = Some ss"
proof (induction ts)
  case Nil
  then show ?case by simp
next
  case (Cons t ts)
  have "\<forall>i<length ts. rank (stage (ts ! i)) = 3"
    using Cons.prems by auto
  then obtain ss where "settlements ts = Some ss" using Cons.IH by blast
  moreover have "rank (stage t) = 3" using Cons.prems by auto
  then obtain s where "stage t = Settled s" by (cases "stage t") simp_all
  ultimately show ?case by simp
qed

lemma complete_count: "complete n sched \<Longrightarrow> i < n \<Longrightarrow> 3 \<le> count_list sched i"
  by (simp add: complete_def list_all_iff)

lemma task_inv_start: "task_inv P ep hdrs cb (put_item_start P ep u)"
  by (simp add: task_inv_def put_item_start_def split: sum.splits)

lemma run_inv_init:
  "run_inv P ep hdrs cb rl ((idle w)\<lparr>tasks := map (put_item_start P ep) urls\<rparr>)"
  by (simp add: run_inv_def idle_def task_inv_start) (simp add: put_item_start_def split: sum.splits)

lemma task_inv_step:
  assumes "\<forall>j<length (tasks st). task_inv P ep hdrs cb (tasks st ! j)"
    and "j < length (tasks st)"
  shows "task_inv P ep hdrs cb (tasks (step P rl hdrs cb i st) ! j)"
proof (cases "j = i")
  case False
  then show ?thesis using assms by (simp add: step_other)
next
  case True
  have inv: "task_inv P ep hdrs cb (tasks st ! i)" using assms True by simp
  show ?thesis
  proof (cases "stage (tasks st ! i)")
    case (AwaitLimiter a)
    then show ?thesis using inv assms(2) True
      by (simp add: step_def Let_def task_inv_def split: prod.splits)
  next
    case (AwaitFetch out)
    then show ?thesis using inv assms(2) True
      by (cases out) (auto simp: step_def Let_def task_inv_def put_item_finish_def)
  next
    case (AwaitJson resp)
    then show ?thesis using inv assms(2) True
      by (auto simp: step_def Let_def task_inv_def put_item_finish_def split: prod.splits)
  next
    case (Settled s)
    then show ?thesis using inv assms(2) True
      by (simp add: step_def Let_def)
  qed
qed

lemma fetched_step:
  "fetched (tasks (step P rl hdrs cb i st) ! j) = Some (r, out) \<Longrightarrow>
   fetched (tasks st ! j) = Some (r, out) \<or> r \<in> set (requests (step P rl hdrs cb i st))"
  by (cases "j = i")
     (auto simp: step_def Let_def split: stage.splits sum.splits prod.splits if_splits)

lemma fetched_kept:
  "j < length (tasks st) \<Longrightarrow> fetched (tasks st ! j) = Some (r, out) \<Longrightarrow>
   task_inv P ep hdrs cb (tasks st ! j) \<Longrightarrow>
   fetched (tasks (step P rl hdrs cb i st) ! j) = Some (r, out)"
  by (cases "j = i")
     (auto simp: step_def Let_def task_inv_def split: stage.splits sum.splits prod.splits)

lemma requests_step:
  "r \<in> set (requests (step P rl hdrs cb i st)) \<Longrightarrow>
   r \<in> set (requests st) \<or>
   (i < length (tasks st) \<and> (\<exists>out. fetched (tasks (step P rl hdrs cb i st) ! i) = Some (r, out)))"
  by (auto simp: step_def Let_def split: stage.splits sum.splits prod.splits if_splits)

lemma requests_mono:
  "r \<in> set (requests st) \<Longrightarrow> r \<in> set (requests (step P rl hdrs cb i st))"
  by (auto simp: step_def Let_def split: stage.splits sum.splits prod.splits)

lemma grants_step:
  "length (grants st) = length (requests st) \<Longrightarrow> set (grants st) \<subseteq> {rl} \<Longrightarrow>
   length (grants (step P rl hdrs cb i st)) = length (requests (step P rl hdrs cb i st)) \<and>
   set (grants (step P rl hdrs cb i st)) \<subseteq> {rl}"
  by (auto simp: step_def Let_def split: stage.splits sum.splits prod.splits)

lemma run_inv_step:
  assumes "run_inv P ep hdrs cb rl st"
  shows "run_inv P ep hdrs cb rl (step P rl hdrs cb i st)"
proof -
  let ?st = "step P rl hdrs cb i st"
  have t: "\<forall>j<length (tasks st). task_inv P ep hdrs cb (tasks st ! j)"
    using assms by (simp add: run_inv_def)
  have a: "\<forall>j<length (tasks ?st). task_inv P ep hdrs cb (tasks ?st ! j)"
    using task_inv_step [OF t] by simp
  have b: "\<forall>r\<in>set (requests ?st). \<exists>j<length (tasks ?st). \<exists>out. fetched (tasks ?st ! j) = Some (r, out)"
  proof
    fix r assume "r \<in> set (requests ?st)"
    then consider "r \<in> set (requests st)"
      | "i < length (tasks st)" "\<exists>out. fetched (tasks ?st ! i) = Some (r, out)"
      using requests_step by blast
    then show "\<exists>j<length (tasks ?st). \<exists>out. fetched (tasks ?st ! j) = Some (r, out)"
    proof cases
      case 1
      then obtain j out where "j < length (tasks st)" "fetched (tasks st ! j) = Some (r, out)"
        using assms by (auto simp: run_inv_def)
      then have "fetched (tasks ?st ! j) = Some (r, out)"
        using fetched_kept t by blast
      then show ?thesis using \<open>j < length (tasks st)\<close> by auto
    next
      case 2
      then show ?thesis by auto
    qed
  qed
  have c: "\<forall>j<length (tasks ?st). \<forall>r out. fetched (tasks ?st ! j) = Some (r, out) \<longrightarrow>
             r \<in> set (requests ?st)"
  proof (intro allI impI)
    fix j r out
    assume j: "j < length (tasks ?st)" and f: "fetched (tasks ?st ! j) = Some (r, out)"
    from fetched_step [OF f] show "r \<in> set (requests ?st)"
    proof
      assume "fetched (tasks st ! j) = Some (r, out)"
      then have "r \<in> set (requests st)" using assms j by (auto simp: run_inv_def)
      then show ?thesis by (rule requests_mono)
    qed
  qed
  have d: "length (grants ?st) = length (requests ?st) \<and> set (grants ?st) \<subseteq> {rl}"
    using assms grants_step [of st rl P hdrs cb i] by (simp add: run_inv_def)
  show ?thesis unfolding run_inv_def using a b c d by blast
qed

lemma run_inv_run:
  "run_inv P ep hdrs cb rl st \<Longrightarrow> run_inv P ep hdrs cb rl (run P rl hdrs cb sched st)"
  by (induction sched arbitrary: st) (simp_all add: run_inv_step)

lemma headers_truthy:
  "token svc = Some t \<Longrightarrow> t \<noteq> [] \<Longrightarrow> PermaCache_headers (token svc) = Inr (auth_headers t)"
  by (simp add: PermaCache_headers_def auth_headers_def)

lemma put_truthy:
  assumes "token svc = Some t" and "t \<noteq> []"
  shows "PermaCache_put P svc urls options sched w =
           (pSettle (tasks (run P (put_limiter svc) (auth_headers t) (put_callback options) sched
                        ((idle w)\<lparr>tasks := map (put_item_start P (endpoint svc)) urls\<rparr>))),
            run P (put_limiter svc) (auth_headers t) (put_callback options) sched
              ((idle w)\<lparr>tasks := map (put_item_start P (endpoint svc)) urls\<rparr>))"
  using headers_truthy [OF assms]
  by (simp add: PermaCache_put_def put_limiter_def put_callback_def Let_def)

lemma put_inv:
  assumes "token svc = Some t" and "t \<noteq> []"
  shows "run_inv P (endpoint svc) (auth_headers t) (put_callback options) (put_limiter svc)
           (snd (PermaCache_put P svc urls options sched w))"
  by (simp add: put_truthy [OF assms] run_inv_run run_inv_init)

lemma put_tasks:
  assumes "token svc = Some t" and "t \<noteq> []"
  shows "length (tasks (snd (PermaCache_put P svc urls options sched w))) = length urls"
    and "i < length urls \<Longrightarrow>
         item_url (tasks (snd (PermaCache_put P svc urls options sched w)) ! i) = urls ! i"
  by (simp_all add: put_truthy [OF assms] idle_def put_item_start_def split: sum.splits)

lemma put_resolves:
  assumes "token svc = Some t" and "t \<noteq> []" and "complete (length urls) sched"
  shows "\<exists>rs. fst (PermaCache_put P svc urls options sched w) = Resolves rs \<and>
              length rs = length urls \<and>
              (\<forall>i<length urls.
                 stage (tasks (snd (PermaCache_put P svc urls options sched w)) ! i)
                   = Settled (rs ! i))"
proof -
  let ?ini = "(idle w)\<lparr>tasks := map (put_item_start P (endpoint svc)) urls\<rparr>"
  let ?st = "run P (put_limiter svc) (auth_headers t) (put_callback options) sched ?ini"
  have len: "length (tasks ?st) = length urls" by simp
  have "\<forall>i<length (tasks ?st). rank (stage (tasks ?st ! i)) = 3"
  proof (intro allI impI)
    fix i assume "i < length (tasks ?st)"
    then have i: "i < length urls" by simp
    then have "3 \<le> count_list sched i" using assms(3) complete_count by blast
    moreover have "min 3 (rank (stage (tasks ?ini ! i)) + count_list sched i)
                     \<le> rank (stage (tasks ?st ! i))"
      using run_progress [of i ?ini] i by simp
    ultimately have "3 \<le> rank (stage (tasks ?st ! i))" by simp
    then show "rank (stage (tasks ?st ! i)) = 3"
      using rank_le_3 [of "stage (tasks ?st ! i)"] by simp
  qed
  then obtain ss where ss: "settlements (tasks ?st) = Some ss"
    using settlements_all_settled by blast
  then have "length ss = length urls" and "\<forall>i<length urls. stage (tasks ?st ! i) = Settled (ss ! i)"
    using settlements_Some_iff [of "tasks ?st" ss] len by simp_all
  then show ?thesis using ss by (simp add: put_truthy [OF assms(1,2)] pSettle_def)
qed

lemma task_inv_settled_Inr:
  "task_inv P ep hdrs cb t \<Longrightarrow> stage t = Settled s \<Longrightarrow> api_url P ep (item_url t) = Inr a \<Longrightarrow>
   \<exists>out. fetched t = Some (post_request hdrs a, out) \<and> s = fst (put_item_finish cb (item_url t) out)"
  by (simp add: task_inv_def)

lemma task_inv_settled_Inl:
  "task_inv P ep hdrs cb t \<Longrightarrow> stage t = Settled s \<Longrightarrow> api_url P ep (item_url t) = Inl e \<Longrightarrow>
   s = Rejected e"
  by (simp add: task_inv_def)

lemma run_inv_task:
  "run_inv P ep hdrs cb rl st \<Longrightarrow> i < length (tasks st) \<Longrightarrow> task_inv P ep hdrs cb (tasks st ! i)"
  by (simp add: run_inv_def)


lemma finish_without_callback: "isRejected (fst (put_item_finish None u out))"
  by (simp add: put_item_finish_def after_json_def split: sum.splits)

lemma put_resolvesE:
  assumes "token svc = Some t" and "t \<noteq> []" and "complete (length urls) sched"
  obtains rs where "fst (PermaCache_put P svc urls options sched w) = Resolves rs"
    and "length rs = length urls"
    and "\<forall>i<length urls.
           stage (tasks (snd (PermaCache_put P svc urls options sched w)) ! i) = Settled (rs ! i)"
proof -
  from put_resolves [OF assms, of P options w] obtain rs where
    "fst (PermaCache_put P svc urls options sched w) = Resolves rs \<and>
     length rs = length urls \<and>
     (\<forall>i<length urls.
        stage (tasks (snd (PermaCache_put P svc urls options sched w)) ! i) = Settled (rs ! i))" ..
  then show thesis by (intro that [of rs]) simp_all
qed


lemma put_settled_item:
  assumes "token svc = Some t" and "t \<noteq> []" and i: "i < length urls"
    and s: "stage (tasks (snd (PermaCache_put P svc urls options sched w)) ! i) = Settled s"
  shows "case api_url P (endpoint svc) (urls ! i) of
           Inl e \<Rightarrow> s = Rejected e
         | Inr a \<Rightarrow>
             (\<exists>out. fetched (tasks (snd (PermaCache_put P svc urls options sched w)) ! i)
                      = Some (post_request (auth_headers t) a, out) \<and>
                    s = fst (put_item_finish (put_callback options) (urls ! i) out))"
proof -
  let ?st = "snd (PermaCache_put P svc urls options sched w)"
  have inv: "run_inv P (endpoint svc) (auth_headers t) (put_callback options) (put_limiter svc) ?st"
    by (rule put_inv [OF assms(1,2)])
  have len: "length (tasks ?st) = length urls" by (rule put_tasks(1) [OF assms(1,2)])
  have il: "i < length (tasks ?st)" using i len by simp
  have u: "item_url (tasks ?st ! i) = urls ! i" using put_tasks(2) [OF assms(1,2) i] .
  have ti: "task_inv P (endpoint svc) (auth_headers t) (put_callback options) (tasks ?st ! i)"
    by (rule run_inv_task [OF inv il])
  show ?thesis
  proof (cases "api_url P (endpoint svc) (urls ! i)")
    case (Inl e)
    then have "api_url P (endpoint svc) (item_url (tasks ?st ! i)) = Inl e" using u by simp
    from task_inv_settled_Inl [OF ti s this] show ?thesis using Inl by simp
  next
    case (Inr a)
    then have "api_url P (endpoint svc) (item_url (tasks ?st ! i)) = Inr a" using u by simp
    from task_inv_settled_Inr [OF ti s this] show ?thesis using Inr u by simp
  qed
qed




text \<open>
  Claim C10. When \<^verbatim>\<open>onCachedUrl\<close> is omitted (no options, or options without it), every
  item that settles is rejected, also one whose request was answered with a 2xx status:
  \<^verbatim>\<open>onCachedUrl(url)\<close> is called unguarded. Once every item has been resumed through
  its awaits, \<^verbatim>\<open>put\<close> resolves with rejections only.
\<close>

theorem put_without_callback_rejects_every_item:
  assumes "token svc = Some t" and "t \<noteq> []"
    and "options = None \<or> (\<exists>opts. options = Some opts \<and> po_onCachedUrl opts = None)"
  shows "(\<forall>i<length urls. \<forall>s.
            stage (tasks (snd (PermaCache_put P svc urls options sched w)) ! i) = Settled s \<longrightarrow>
            isRejected s) \<and>
         (complete (length urls) sched \<longrightarrow>
            (\<exists>rs. fst (PermaCache_put P svc urls options sched w) = Resolves rs \<and>
                  length rs = length urls \<and> (\<forall>s\<in>set rs. isRejected s)))"
proof -
  let ?st = "snd (PermaCache_put P svc urls options sched w)"
  have cb: "put_callback options = None"
    using assms(3) by (elim disjE exE conjE) (simp_all add: put_callback_def)
  have a: "\<forall>i<length urls. \<forall>s. stage (tasks ?st ! i) = Settled s \<longrightarrow> isRejected s"
  proof (intro allI impI)
    fix i s assume i: "i < length urls" and s: "stage (tasks ?st ! i) = Settled s"
    note it = put_settled_item [OF assms(1,2) i s, unfolded cb]
    show "isRejected s"
    proof (cases "api_url P (endpoint svc) (urls ! i)")
      case (Inl e)
      then show ?thesis using it by simp
    next
      case (Inr a)
      then obtain out where "s = fst (put_item_finish None (urls ! i) out)"
        using it by (simp split: sum.splits) (elim exE conjE)
      then show ?thesis by (simp add: finish_without_callback)
    qed
  qed
  have b: "complete (length urls) sched \<longrightarrow>
            (\<exists>rs. fst (PermaCache_put P svc urls options sched w) = Resolves rs \<and>
                  length rs = length urls \<and> (\<forall>s\<in>set rs. isRejected s))"
  proof
    assume c: "complete (length urls) sched"
    obtain rs where rs: "fst (PermaCache_put P svc urls options sched w) = Resolves rs"
      "length rs = length urls"
      and st: "\<forall>i<length urls. stage (tasks ?st ! i) = Settled (rs ! i)"
      by (rule put_resolvesE [OF assms(1,2) c, of P options w])
    have all: "\<forall>s\<in>set rs. isRejected s"
    proof
      fix s assume "s \<in> set rs"
      then obtain i where i: "i < length rs" "rs ! i = s" by (auto simp: in_set_conv_nth)
      then have "i < length urls" using rs(2) by simp
      then have "isRejected (rs ! i)" using a st by simp
      then show "isRejected s" using i by simp
    qed
    show "\<exists>rs. fst (PermaCache_put P svc urls options sched w) = Resolves rs \<and>
                  length rs = length urls \<and> (\<forall>s\<in>set rs. isRejected s)"
      by (rule exI [of _ rs]) (intro conjI rs all)
  qed
  show ?thesis by (intro conjI a b)
qed







lemma headers_falsy:
  "token svc = None \<or> token svc = Some [] \<Longrightarrow>
   PermaCache_headers (token svc) = Inl (Error (JStr ''missing token''))"
  by (auto simp: PermaCache_headers_def)

text \<open>
  Claim C5 says that constructing a client with an empty token fails. The constructor
  does not look at the token: with \<^verbatim>\<open>token: ""\<close> it returns a client holding the empty
  token (and a limiter of its own).
\<close>

theorem constructor_accepts_empty_token:
  "PermaCache_constructor \<lparr>opt_token = Some [], opt_endpoint = None, opt_rateLimiter = None\<rparr>
     module_heap
   = (\<lparr>endpoint = URL ''https://api.nftstorage.link/'', token = Some [],
       rateLimiter = Some (Throttled 1)\<rparr>,
      [(100, 60000), (100, 60000)])"
  by (simp add: PermaCache_constructor_def module_heap_def createRateLimiter_def
        RATE_LIMIT_REQUESTS_def RATE_LIMIT_PERIOD_def)

text \<open>
  Claim C5, as the code has it. With an omitted or empty token, \<^verbatim>\<open>put\<close> rejects with
  \<^verbatim>\<open>Error('missing token')\<close> for every schedule (so before anything is awaited), with
  no limiter awaited and no request sent; \<^verbatim>\<open>list\<close> rejects too, with no request sent,
  and with \<^verbatim>\<open>Error('missing token')\<close> when its URL could be built. The constructor
  stores whatever token it is given.
\<close>

theorem missing_token_fails_at_call_time:
  assumes "token svc = None \<or> token svc = Some []"
  shows "fst (PermaCache_put P svc urls options sched w) = Rejects (Error (JStr ''missing token'')) \<and>
         requests (snd (PermaCache_put P svc urls options sched w)) = [] \<and>
         grants (snd (PermaCache_put P svc urls options sched w)) = [] \<and>
         (\<exists>e. fst (PermaCache_list P svc lo w) = Rejects e) \<and>
         requests (snd (PermaCache_list P svc lo w)) = [] \<and>
         grants (snd (PermaCache_list P svc lo w)) = [] \<and>
         (\<forall>u. new_URL P ''perma-cache/'' (endpoint svc) = Inr u \<longrightarrow>
              fst (PermaCache_list P svc lo w) = Rejects (Error (JStr ''missing token''))) \<and>
         token (fst (PermaCache_constructor opts h)) = opt_token opts"
proof -
  note h = headers_falsy [OF assms]
  have p: "PermaCache_put P svc urls options sched w
             = (Rejects (Error (JStr ''missing token'')), idle w)"
    by (simp add: PermaCache_put_def h)
  have l: "PermaCache_list P svc lo w
             = (case new_URL P ''perma-cache/'' (endpoint svc) of
                  Inl e \<Rightarrow> (Rejects e, idle w)
                | Inr u \<Rightarrow> (Rejects (Error (JStr ''missing token'')), idle w))"
    by (simp add: PermaCache_list_def h split: sum.splits)
  have c: "token (fst (PermaCache_constructor opts h)) = opt_token opts"
    by (simp add: PermaCache_constructor_def Let_def split: prod.splits)
  show ?thesis
    by (simp add: p l c idle_def split: sum.splits)
qed

text \<open>
  Claim C6. When the one GET of \<^verbatim>\<open>list\<close> is answered with a JSON body whose \<^verbatim>\<open>ok\<close>
  is \<^verbatim>\<open>false\<close>, \<^verbatim>\<open>list\<close> rejects, having sent that one request and no other, and the
  error is \<^verbatim>\<open>new Error(result.error.message)\<close> when the body has that message; when
  \<^verbatim>\<open>ok\<close> is \<^verbatim>\<open>true\<close>, \<^verbatim>\<open>list\<close> resolves with the decoded body.
\<close>

theorem list_ok_false_throws:
  assumes "new_URL P ''perma-cache/'' (endpoint svc) = Inr u"
    and "PermaCache_headers (token svc) = Inr hdrs"
    and "fetch P \<lparr>req_url = href u, req_method = ''GET'', req_headers = hdrs\<rparr> w = (Inr resp, w')"
    and "body resp = Inr result"
  shows "(get_prop result ''ok'' = Inr (JBool False) \<longrightarrow>
            (\<exists>e. fst (PermaCache_list P svc lo w) = Rejects e) \<and>
            requests (snd (PermaCache_list P svc lo w))
              = [\<lparr>req_url = href u, req_method = ''GET'', req_headers = hdrs\<rparr>] \<and>
            (\<forall>err m. get_prop result ''error'' = Inr err \<longrightarrow> get_prop err ''message'' = Inr m \<longrightarrow>
                 fst (PermaCache_list P svc lo w) = Rejects (Error m))) \<and>
         (get_prop result ''ok'' = Inr (JBool True) \<longrightarrow>
            fst (PermaCache_list P svc lo w) = Resolves result \<and>
            requests (snd (PermaCache_list P svc lo w))
              = [\<lparr>req_url = href u, req_method = ''GET'', req_headers = hdrs\<rparr>])"
  using assms
  by (simp add: PermaCache_list_def Let_def idle_def split: sum.splits)





lemma enc1: "percent_encode ''https://a/1'' = Inr ''https%3A%2F%2Fa%2F1''"
  by (simp add: percent_encode_def unreserved_def hex_digit_def)

lemma enc2: "percent_encode ''https://a/2'' = Inr ''https%3A%2F%2Fa%2F2''"
  by (simp add: percent_encode_def unreserved_def hex_digit_def)

lemmas sample_defs =
  PermaCache_put_def PermaCache_headers_def sample_service_def sample_platform_def
  constant_platform_def ok_response_def idle_def put_item_start_def api_url_def enc1 enc2
  append_to_base_def step_def post_request_def flaky_service_def after_json_def
  response_ok_def pSettle_def entry_for_def Let_def

text \<open>
  Claim C3, at the scenario of the specification: two URLs, \<^verbatim>\<open>maxRetries = 5\<close>, and a
  service that answers the second URL with status 500 twice and with 200 from then on.
  \<^verbatim>\<open>put\<close> sends one request per URL and the second item settles as rejected with the
  message of the first 500 answer: nothing is retried, and \<^verbatim>\<open>onCachedUrl\<close> is
  called once, for the first URL.
\<close>

theorem put_does_not_retry:
  "fst (PermaCache_put sample_platform sample_service [''https://a/1'', ''https://a/2'']
          (Some \<lparr>po_onCachedUrl = Some (\<lambda>u. None), po_maxRetries = Some 5\<rparr>)
          [0, 1, 0, 1, 0, 1] 0)
     = Resolves
         [Fulfilled (entry_for ''https://api.nftstorage.link/perma-cache/https%3A%2F%2Fa%2F1''),
          Rejected (Error (JStr ''Internal Server Error''))] \<and>
   map req_url (requests (snd (PermaCache_put sample_platform sample_service
          [''https://a/1'', ''https://a/2'']
          (Some \<lparr>po_onCachedUrl = Some (\<lambda>u. None), po_maxRetries = Some 5\<rparr>)
          [0, 1, 0, 1, 0, 1] 0)))
     = [''https://api.nftstorage.link/perma-cache/https%3A%2F%2Fa%2F1'',
        ''https://api.nftstorage.link/perma-cache/https%3A%2F%2Fa%2F2''] \<and>
   callbacks (snd (PermaCache_put sample_platform sample_service
          [''https://a/1'', ''https://a/2'']
          (Some \<lparr>po_onCachedUrl = Some (\<lambda>u. None), po_maxRetries = Some 5\<rparr>)
          [0, 1, 0, 1, 0, 1] 0))
     = [''https://a/1'']"
  by (simp add: sample_defs)

text \<open>
  Claim C4, at a call without options: the request is answered with status 200, and the
  item settles as rejected with the TypeError of calling \<^verbatim>\<open>undefined\<close>.
\<close>

theorem put_without_options_rejects_success:
  "fst (PermaCache_put (constant_platform ok_response) sample_service [''https://a/1''] None
          [0, 0, 0] ())
     = Resolves [Rejected (TypeError ''onCachedUrl is not a function'')]"
  by (simp add: sample_defs)

text \<open>\<^verbatim>\<open>maxRetries\<close> has no effect on a call.\<close>

lemma maxRetries_not_read:
  "PermaCache_put P svc urls (Some (opts\<lparr>po_maxRetries := m\<rparr>)) sched w
     = PermaCache_put P svc urls (Some opts) sched w"
  by (simp add: PermaCache_put_def)

lemma sample_token: "token sample_service = Some ''secret''"
  by (simp add: sample_service_def)




lemma secret_nonempty: "''secret'' \<noteq> []"
  by simp


lemma one_complete: "complete (length [''https://a/1'']) [0, 0, 0]"
  by (simp add: complete_def)

theorem put_without_callback_rejects_every_item_witness:
  "token sample_service = Some ''secret'' \<and>
   complete (length [''https://a/1'']) [0, 0, 0] \<and>
   (\<exists>rs. fst (PermaCache_put (constant_platform ok_response) sample_service [''https://a/1'']
                 None [0, 0, 0] ()) = Resolves rs \<and>
         length rs = length [''https://a/1''] \<and> isRejected (rs ! 0))"
proof -
  let ?put = "PermaCache_put (constant_platform ok_response) sample_service [''https://a/1'']
                None [0, 0, 0] ()"
  have opt: "(None :: put_options option) = None \<or>
             (\<exists>opts. (None :: put_options option) = Some opts \<and> po_onCachedUrl opts = None)"
    by simp
  note th = put_without_callback_rejects_every_item [OF sample_token secret_nonempty opt,
      of "[''https://a/1'']" "constant_platform ok_response" "[0, 0, 0]" "()"]
  from th [THEN conjunct2, rule_format, OF one_complete]
  obtain rs where three: "fst ?put = Resolves rs \<and> length rs = length [''https://a/1''] \<and>
      (\<forall>s\<in>set rs. isRejected s)" ..
  note rs = three [THEN conjunct1] three [THEN conjunct2, THEN conjunct1]
  note all = three [THEN conjunct2, THEN conjunct2]
  have "rs ! 0 \<in> set rs" using rs(2) by (intro nth_mem) simp
  then have r: "isRejected (rs ! 0)" using all by (rule bspec [rotated])
  have "\<exists>rs. fst ?put = Resolves rs \<and> length rs = length [''https://a/1''] \<and> isRejected (rs ! 0)"
    by (rule exI [of _ rs]) (intro conjI rs r)
  then show ?thesis by (intro conjI sample_token one_complete)
qed




lemma list_url:
  "new_URL sample_platform ''perma-cache/'' (endpoint (sample_service\<lparr>token := Some []\<rparr>))
     = Inr (URL ''https://api.nftstorage.link/perma-cache/'')"
  by (simp add: sample_platform_def sample_service_def append_to_base_def)

theorem missing_token_fails_at_call_time_witness:
  "token (sample_service\<lparr>token := Some []\<rparr>) = Some [] \<and>
   fst (PermaCache_put sample_platform (sample_service\<lparr>token := Some []\<rparr>) [''https://a/1'']
          None [0, 0, 0] 0) = Rejects (Error (JStr ''missing token'')) \<and>
   requests (snd (PermaCache_put sample_platform (sample_service\<lparr>token := Some []\<rparr>)
          [''https://a/1''] None [0, 0, 0] 0)) = [] \<and>
   fst (PermaCache_list sample_platform (sample_service\<lparr>token := Some []\<rparr>) None 0)
     = Rejects (Error (JStr ''missing token'')) \<and>
   requests (snd (PermaCache_list sample_platform (sample_service\<lparr>token := Some []\<rparr>) None 0)) = []"
proof -
  have t: "token (sample_service\<lparr>token := Some []\<rparr>) = Some []" by simp
  have h: "token (sample_service\<lparr>token := Some []\<rparr>) = None \<or>
           token (sample_service\<lparr>token := Some []\<rparr>) = Some []"
    by (rule disjI2) (rule t)
  note th = missing_token_fails_at_call_time [OF h,
      where P = sample_platform and urls = "[''https://a/1'']" and options = None
        and sched = "[0, 0, 0]" and w = 0 and lo = None]
  note p = th [THEN conjunct1]
  note r = th [THEN conjunct2, THEN conjunct1]
  note lr = th [THEN conjunct2, THEN conjunct2, THEN conjunct2, THEN conjunct2, THEN conjunct1]
  note l = th [THEN conjunct2, THEN conjunct2, THEN conjunct2, THEN conjunct2, THEN conjunct2,
      THEN conjunct2, THEN conjunct1, rule_format, OF list_url]
  show ?thesis by (intro conjI t p r l lr)
qed

lemma list_sample_url:
  "new_URL (constant_platform out) ''perma-cache/'' (endpoint sample_service)
     = Inr (URL ''https://api.nftstorage.link/perma-cache/'')"
  by (simp add: constant_platform_def sample_service_def append_to_base_def)

lemma sample_headers:
  "PermaCache_headers (token sample_service)
     = Inr [(''Authorization'', ''Bearer secret''), (''X-Client'', ''nftstorage.link/js'')]"
  by (simp add: PermaCache_headers_def sample_service_def)

theorem list_ok_false_throws_witness:
  "fst (PermaCache_list (constant_platform bad_token_response) sample_service None ())
     = Rejects (Error (JStr ''bad token'')) \<and>
   requests (snd (PermaCache_list (constant_platform bad_token_response) sample_service None ()))
     = [\<lparr>req_url = href (URL ''https://api.nftstorage.link/perma-cache/''), req_method = ''GET'',
         req_headers = [(''Authorization'', ''Bearer secret''),
                        (''X-Client'', ''nftstorage.link/js'')]\<rparr>] \<and>
   fst (PermaCache_list (constant_platform ok_response) sample_service None ())
     = Resolves (JObj [(''ok'', JBool True)])"
proof -
  let ?req = "\<lparr>req_url = href (URL ''https://api.nftstorage.link/perma-cache/''),
               req_method = ''GET'',
               req_headers = [(''Authorization'', ''Bearer secret''),
                              (''X-Client'', ''nftstorage.link/js'')]\<rparr>"
  let ?bad = "JObj [(''ok'', JBool False), (''error'', JObj [(''message'', JStr ''bad token'')])]"
  have fb: "fetch (constant_platform bad_token_response) ?req ()
              = (Inr \<lparr>status = 401, body = Inr ?bad\<rparr>, ())"
    by (simp add: constant_platform_def bad_token_response_def)
  have bb: "body \<lparr>status = 401, body = Inr ?bad\<rparr> = Inr ?bad" by simp
  have okf: "get_prop ?bad ''ok'' = Inr (JBool False)" by simp
  have er: "get_prop ?bad ''error'' = Inr (JObj [(''message'', JStr ''bad token'')])" by simp
  have me: "get_prop (JObj [(''message'', JStr ''bad token'')]) ''message'' = Inr (JStr ''bad token'')"
    by simp
  note bad = list_ok_false_throws [OF list_sample_url sample_headers fb bb, where lo = None,
      THEN conjunct1, rule_format, OF okf]
  note b1 = bad [THEN conjunct2, THEN conjunct2, rule_format, OF er me]
  note b2 = bad [THEN conjunct2, THEN conjunct1]
  have fo: "fetch (constant_platform ok_response) ?req ()
              = (Inr \<lparr>status = 200, body = Inr (JObj [(''ok'', JBool True)])\<rparr>, ())"
    by (simp add: constant_platform_def ok_response_def)
  have bo: "body \<lparr>status = 200, body = Inr (JObj [(''ok'', JBool True)])\<rparr>
              = Inr (JObj [(''ok'', JBool True)])" by simp
  have okt: "get_prop (JObj [(''ok'', JBool True)]) ''ok'' = Inr (JBool True)" by simp
  note good = list_ok_false_throws [OF list_sample_url sample_headers fo bo, where lo = None,
      THEN conjunct2, rule_format, OF okt, THEN conjunct1]
  show ?thesis by (intro conjI b1 b2 good)
qed



lemma filter_update_gain:
  "i < length xs \<Longrightarrow> \<not> Q (xs ! i) \<Longrightarrow> Q x \<Longrightarrow>
   length (filter Q (xs[i := x])) = Suc (length (filter Q xs))"
proof (induction xs arbitrary: i)
  case Nil
  then show ?case by simp
next
  case (Cons y ys)
  then show ?case by (cases i) simp_all
qed

lemma filter_update_same:
  "i < length xs \<Longrightarrow> Q x = Q (xs ! i) \<Longrightarrow>
   length (filter Q (xs[i := x])) = length (filter Q xs)"
proof (induction xs arbitrary: i)
  case Nil
  then show ?case by simp
next
  case (Cons y ys)
  then show ?case by (cases i) simp_all
qed

lemma sent_step:
  assumes inv: "\<forall>j<length (tasks st). task_inv P ep hdrs cb (tasks st ! j)"
    and cnt: "length (requests st) = length (filter has_sent (tasks st))"
  shows "length (requests (step P rl hdrs cb i st))
           = length (filter has_sent (tasks (step P rl hdrs cb i st)))"
proof (cases "i < length (tasks st)")
  case False
  then show ?thesis using cnt by (simp add: step_def)
next
  case True
  then have ti: "task_inv P ep hdrs cb (tasks st ! i)" using inv by simp
  show ?thesis
  proof (cases "stage (tasks st ! i)")
    case (AwaitLimiter a)
    then have "\<not> has_sent (tasks st ! i)" using ti by (simp add: task_inv_def has_sent_def)
    then show ?thesis using True cnt AwaitLimiter
      by (simp add: step_def Let_def filter_update_gain has_sent_def split: prod.splits)
  next
    case (AwaitFetch out)
    then show ?thesis using True cnt
      by (cases out) (simp_all add: step_def Let_def filter_update_same has_sent_def)
  next
    case (AwaitJson resp)
    then show ?thesis using True cnt
      by (simp add: step_def Let_def filter_update_same has_sent_def split: prod.splits)
  next
    case (Settled s)
    then show ?thesis using True cnt by (simp add: step_def Let_def)
  qed
qed

lemma sent_run:
  "\<forall>j<length (tasks st). task_inv P ep hdrs cb (tasks st ! j) \<Longrightarrow>
   length (requests st) = length (filter has_sent (tasks st)) \<Longrightarrow>
   length (requests (run P rl hdrs cb sched st))
     = length (filter has_sent (tasks (run P rl hdrs cb sched st)))"
proof (induction sched arbitrary: st)
  case Nil
  then show ?case by simp
next
  case (Cons i sched)
  have "\<forall>j<length (tasks (step P rl hdrs cb i st)).
          task_inv P ep hdrs cb (tasks (step P rl hdrs cb i st) ! j)"
    using task_inv_step [OF Cons.prems(1)] by simp
  moreover have "length (requests (step P rl hdrs cb i st))
                   = length (filter has_sent (tasks (step P rl hdrs cb i st)))"
    by (rule sent_step [OF Cons.prems])
  ultimately show ?case using Cons.IH by simp
qed

lemma start_not_sent: "\<not> has_sent (put_item_start P ep u)"
  by (simp add: has_sent_def put_item_start_def split: sum.splits)

text \<open>
  Whatever \<^verbatim>\<open>maxRetries\<close> is, \<^verbatim>\<open>put\<close> hands at most one request per URL to
  \<^verbatim>\<open>fetch\<close>: an item makes one attempt.
\<close>

lemma put_one_attempt_per_item:
  "length (requests (snd (PermaCache_put P svc urls options sched w))) \<le> length urls"
proof (cases "PermaCache_headers (token svc)")
  case (Inl e)
  then show ?thesis by (simp add: PermaCache_put_def idle_def)
next
  case (Inr hdrs)
  let ?ini = "(idle w)\<lparr>tasks := map (put_item_start P (endpoint svc)) urls\<rparr>"
  let ?rl = "case rateLimiter svc of None \<Rightarrow> globalRateLimiter | Some r \<Rightarrow> r"
  let ?cb = "case options of None \<Rightarrow> None | Some opts \<Rightarrow> po_onCachedUrl opts"
  let ?st = "run P ?rl hdrs ?cb sched ?ini"
  have inv: "\<forall>j<length (tasks ?ini). task_inv P (endpoint svc) hdrs ?cb (tasks ?ini ! j)"
    by (simp add: idle_def task_inv_start)
  have "filter has_sent (map (put_item_start P (endpoint svc)) urls) = []"
    by (simp add: filter_empty_conv start_not_sent)
  then have cnt: "length (requests ?ini) = length (filter has_sent (tasks ?ini))"
    by (simp add: idle_def)
  have "length (requests ?st) = length (filter has_sent (tasks ?st))"
    by (rule sent_run [OF inv cnt])
  also have "\<dots> \<le> length (tasks ?st)" by (rule length_filter_le)
  also have "\<dots> = length urls" by simp
  finally show ?thesis using Inr by (simp add: PermaCache_put_def Let_def)
qed

lemma served_step:
  assumes serve: "\<And>req w. fetch P req w = (serve req, w)"
    and inv: "\<forall>j<length (tasks st). \<forall>r out. fetched (tasks st ! j) = Some (r, out) \<longrightarrow> out = serve r"
  shows "\<forall>j<length (tasks (step P rl hdrs cb i st)). \<forall>r out.
           fetched (tasks (step P rl hdrs cb i st) ! j) = Some (r, out) \<longrightarrow> out = serve r"
proof (intro allI impI)
  fix j r out
  assume j: "j < length (tasks (step P rl hdrs cb i st))"
    and f: "fetched (tasks (step P rl hdrs cb i st) ! j) = Some (r, out)"
  have jl: "j < length (tasks st)" using j by simp
  show "out = serve r"
  proof (cases "j = i")
    case False
    then have "fetched (tasks st ! j) = Some (r, out)" using f by (simp add: step_other)
    then show ?thesis using inv jl by simp
  next
    case True
    show ?thesis
    proof (cases "stage (tasks st ! i)")
      case (AwaitLimiter a)
      then show ?thesis using f True jl by (auto simp: step_def Let_def serve)
    next
      case (AwaitFetch out')
      then have "fetched (tasks st ! j) = Some (r, out)" using f True jl
        by (cases out') (simp_all add: step_def Let_def)
      then show ?thesis using inv jl by simp
    next
      case (AwaitJson resp)
      then have "fetched (tasks st ! j) = Some (r, out)" using f True jl
        by (simp add: step_def Let_def split: prod.splits)
      then show ?thesis using inv jl by simp
    next
      case (Settled s)
      then have "fetched (tasks st ! j) = Some (r, out)" using f True jl
        by (simp add: step_def Let_def)
      then show ?thesis using inv jl by simp
    qed
  qed
qed

lemma served_run:
  assumes serve: "\<And>req w. fetch P req w = (serve req, w)"
  shows "\<forall>j<length (tasks st). \<forall>r out. fetched (tasks st ! j) = Some (r, out) \<longrightarrow> out = serve r \<Longrightarrow>
         \<forall>j<length (tasks (run P rl hdrs cb sched st)). \<forall>r out.
           fetched (tasks (run P rl hdrs cb sched st) ! j) = Some (r, out) \<longrightarrow> out = serve r"
proof (induction sched arbitrary: st)
  case Nil
  then show ?case by simp
next
  case (Cons i sched)
  have "\<forall>j<length (tasks (step P rl hdrs cb i st)). \<forall>r out.
           fetched (tasks (step P rl hdrs cb i st) ! j) = Some (r, out) \<longrightarrow> out = serve r"
    by (rule served_step [OF serve Cons.prems])
  from Cons.IH [OF this] show ?case by simp
qed

lemma put_served:
  assumes "token svc = Some t" and "t \<noteq> []"
    and serve: "\<And>req w. fetch P req w = (serve req, w)"
    and i: "i < length urls"
    and f: "fetched (tasks (snd (PermaCache_put P svc urls options sched w)) ! i) = Some (r, out)"
  shows "out = serve r"
proof -
  let ?ini = "(idle w)\<lparr>tasks := map (put_item_start P (endpoint svc)) urls\<rparr>"
  let ?st = "run P (put_limiter svc) (auth_headers t) (put_callback options) sched ?ini"
  have "\<forall>j<length (tasks ?ini). \<forall>r out. fetched (tasks ?ini ! j) = Some (r, out) \<longrightarrow> out = serve r"
    by (simp add: idle_def put_item_start_def split: sum.splits)
  then have "\<forall>j<length (tasks ?st). \<forall>r out. fetched (tasks ?st ! j) = Some (r, out) \<longrightarrow> out = serve r"
    by (rule served_run [OF serve])
  moreover have "snd (PermaCache_put P svc urls options sched w) = ?st"
    by (simp add: put_truthy [OF assms(1,2)])
  ultimately show ?thesis using i f by simp
qed

text \<open>
  When the remote service answers each request by itself (its answer does not depend on
  what it was asked before), the resolved array does not depend on the schedule at all:
  it is the list of the URLs' own settlements, in the order of the URLs.
\<close>

lemma put_schedule_independent:
  assumes "token svc = Some t" and "t \<noteq> []" and "complete (length urls) sched"
    and serve: "\<And>req w. fetch P req w = (serve req, w)"
  shows "fst (PermaCache_put P svc urls options sched w)
           = Resolves (map (\<lambda>u. case api_url P (endpoint svc) u of
                                   Inl e \<Rightarrow> Rejected e
                                 | Inr a \<Rightarrow>
                                     fst (put_item_finish (put_callback options) u
                                            (serve (post_request (auth_headers t) a)))) urls)"
proof -
  let ?st = "snd (PermaCache_put P svc urls options sched w)"
  let ?f = "\<lambda>u. case api_url P (endpoint svc) u of
                    Inl e \<Rightarrow> Rejected e
                  | Inr a \<Rightarrow>
                      fst (put_item_finish (put_callback options) u
                             (serve (post_request (auth_headers t) a)))"
  obtain rs where rs: "fst (PermaCache_put P svc urls options sched w) = Resolves rs"
      "length rs = length urls"
    and st: "\<forall>i<length urls. stage (tasks ?st ! i) = Settled (rs ! i)"
    by (rule put_resolvesE [OF assms(1,2,3), of P options w])
  have "rs = map ?f urls"
  proof (rule nth_equalityI)
    show "length rs = length (map ?f urls)" using rs(2) by simp
  next
    fix i assume "i < length rs"
    then have i: "i < length urls" using rs(2) by simp
    note it = put_settled_item [OF assms(1,2) i st [rule_format, OF i]]
    show "rs ! i = map ?f urls ! i"
    proof (cases "api_url P (endpoint svc) (urls ! i)")
      case (Inl e)
      then show ?thesis using it i by simp
    next
      case (Inr a)
      with it obtain out where
        both: "fetched (tasks ?st ! i) = Some (post_request (auth_headers t) a, out) \<and>
               rs ! i = fst (put_item_finish (put_callback options) (urls ! i) out)"
        by auto
      have "out = serve (post_request (auth_headers t) a)"
        by (rule put_served [OF assms(1,2) serve i both [THEN conjunct1]])
      then show ?thesis using both Inr i by simp
    qed
  qed
  then show ?thesis using rs(1) by simp
qed

text \<open>
  A supplied \<^verbatim>\<open>onCachedUrl\<close> is called once by an item whose request was answered with
  a 2xx status and a JSON body, and not at all by any other item; what it returns is
  dropped, and the item is fulfilled with the decoded body unless the callback throws.
\<close>

lemma callback_called_on_success_only:
  "snd (after_json (Some cb) u resp)
     = (if response_ok resp \<and> (\<exists>res. body resp = Inr res) then [u] else [])"
  "snd (after_json None u resp) = []"
  "snd (put_item_finish onCachedUrl u (Inl e)) = []"
  by (auto simp: after_json_def put_item_finish_def split: sum.splits option.splits)

lemma fulfilled_with_decoded_body:
  "fst (after_json (Some cb) u resp) = Fulfilled v \<longleftrightarrow>
   response_ok resp \<and> body resp = Inr v \<and> cb u = None"
  by (auto simp: after_json_def split: sum.splits option.splits)

end
